theory Spec2Isabelle
  imports Complex_Main "HOL-Library.Word"
begin

section \<open>The fake-background webcam pipeline of \<^verbatim>\<open>fake.py\<close>\<close>

text \<open>
  A shallow embedding of the parts of \<^verbatim>\<open>fake.py\<close> that the specification talks about:
  the on-demand consumer counter of \<^verbatim>\<open>FakeCam.run\<close>, the mask smoothing and the
  background replacement of \<^verbatim>\<open>FakeCam.compose_frame\<close>, the background loading of
  \<^verbatim>\<open>FakeCam.load_images\<close> (tiling, video playback) and \<^verbatim>\<open>FakeCam.resize_image\<close>.

  Python \<^verbatim>\<open>int\<close> is \<^typ>\<open>int\<close>. Python floats (the frame rates, the scale of
  \<^verbatim>\<open>resize_image\<close>, the smoothing coefficient) are idealised as \<^typ>\<open>real\<close>: a sum,
  product or quotient of them is the exact one. The \<^verbatim>\<open>float32\<close> array arithmetic of the
  background replacement is not idealised: every operation there is followed by its
  rounding, a parameter \<open>fl\<close> of the model, and \<^verbatim>\<open>np.exp\<close> on \<^verbatim>\<open>float32\<close> is a
  parameter \<open>fexp\<close>. Pixels of a camera frame are \<^verbatim>\<open>uint8\<close>, here \<^typ>\<open>8 word\<close>.
  Exceptions are values of the type \<open>error\<close>. Calls into OpenCV whose result the program
  only passes on (\<^verbatim>\<open>cv2.resize\<close>, \<^verbatim>\<open>VideoCapture.read\<close>, \<^verbatim>\<open>VideoCapture.set\<close>) are
  parameters of the functions that make them.
\<close>

datatype error =
    RuntimeError
  | AssertionError
  | ZeroDivisionError
  | UnboundLocalError
  | ValueError
  | CvError

subsection \<open>Consumer lifecycle (\<^verbatim>\<open>FakeCam.run\<close>, lines 329-344; \<^verbatim>\<open>toggle_pause\<close>)\<close>

text \<open>
  The members of \<^verbatim>\<open>inotify_simple.flags\<close>. \<^verbatim>\<open>flags.from_mask\<close> lists the flags whose
  bit is set in the mask of an event, so an event is a list of flags.
\<close>

datatype flag =
    ACCESS | MODIFY | ATTRIB | CLOSE_WRITE | CLOSE_NOWRITE | OPEN
  | MOVED_FROM | MOVED_TO | CREATE | DELETE | DELETE_SELF | MOVE_SELF
  | UNMOUNT | Q_OVERFLOW | IGNORED | ONLYDIR | DONT_FOLLOW | EXCL_UNLINK
  | MASK_ADD | ISDIR | ONESHOT

type_synonym event = "flag list"

record lifecycle =
  consumers :: int
  paused :: bool

text \<open>The body of \<^verbatim>\<open>for flag in flags.from_mask(event.mask)\<close>: two independent tests.\<close>

definition count_flag :: "int \<Rightarrow> flag \<Rightarrow> int" where
  "count_flag c f =
     (let c1 = (if f = CLOSE_NOWRITE \<or> f = CLOSE_WRITE then c - 1 else c)
      in if f = OPEN then c1 + 1 else c1)"

text \<open>
  The body of \<^verbatim>\<open>for event in inotify.read(0)\<close>: the flags are counted, then the
  counter decides the state. (The call of \<^verbatim>\<open>load_images\<close> on the active branch reloads
  the images and touches neither field.)
\<close>

definition process_event :: "lifecycle \<Rightarrow> event \<Rightarrow> lifecycle" where
  "process_event s ev =
     (let c = foldl count_flag (consumers s) ev
      in if c > 0 then s\<lparr>consumers := c, paused := False\<rparr>
         else s\<lparr>consumers := 0, paused := True\<rparr>)"

definition process_events :: "lifecycle \<Rightarrow> event list \<Rightarrow> lifecycle" where
  "process_events = foldl process_event"

text \<open>
  The state when the loop of \<^verbatim>\<open>run\<close> starts in on-demand mode: \<^verbatim>\<open>__init__\<close> sets
  \<^verbatim>\<open>consumers = 0\<close> and \<^verbatim>\<open>run\<close> sets \<^verbatim>\<open>paused = True\<close>.
\<close>

definition ondemand_start :: lifecycle where
  "ondemand_start = \<lparr>consumers = 0, paused = True\<rparr>"

text \<open>\<^verbatim>\<open>toggle_pause\<close>, the handler of SIGQUIT: it flips \<^verbatim>\<open>paused\<close> only.\<close>

definition toggle_pause :: "lifecycle \<Rightarrow> lifecycle" where
  "toggle_pause s = s\<lparr>paused := \<not> paused s\<rparr>"

text \<open>
  What can change the two fields while \<^verbatim>\<open>run\<close> loops in on-demand mode: an event of the
  watched device, processed by the loop, or SIGQUIT, whose handler (installed by
  \<^verbatim>\<open>main\<close>, line 476) calls \<^verbatim>\<open>toggle_pause\<close>.
\<close>

datatype step = Event event | Sigquit

definition apply_step :: "lifecycle \<Rightarrow> step \<Rightarrow> lifecycle" where
  "apply_step s st = (case st of Event ev \<Rightarrow> process_event s ev | Sigquit \<Rightarrow> toggle_pause s)"

definition run_steps :: "lifecycle \<Rightarrow> step list \<Rightarrow> lifecycle" where
  "run_steps = foldl apply_step"

subsection \<open>Mask smoothing (\<^verbatim>\<open>FakeCam.compose_frame\<close>, lines 274-279)\<close>

type_synonym mask_t = "real list list"

text \<open>
  \<^verbatim>\<open>raw * alpha + old * (1.0 - alpha)\<close> on two arrays of one shape, element by element.
\<close>

definition mix_masks :: "real \<Rightarrow> mask_t \<Rightarrow> mask_t \<Rightarrow> mask_t" where
  "mix_masks alpha raw old =
     map2 (map2 (\<lambda>r o'. r * alpha + o' * (1 - alpha))) raw old"

text \<open>
  One pass through lines 274-279. \<open>raw\<close> is what the classifier returns for the frame,
  \<open>old_mask\<close> is \<^verbatim>\<open>self.old_mask\<close> (\<open>None\<close> as in Python). The result is the new
  \<^verbatim>\<open>self.old_mask\<close>, which is never \<open>None\<close> afterwards, and the local \<^verbatim>\<open>mask\<close>
  read from it. A Python float is true when it is not 0.
\<close>

definition smooth_mask :: "real \<Rightarrow> mask_t \<Rightarrow> mask_t option \<Rightarrow> mask_t option \<times> mask_t" where
  "smooth_mask alpha raw old_mask =
     (let new_mask =
            (case old_mask of
               None \<Rightarrow> raw
             | Some prev \<Rightarrow>
                 if alpha = 1 then raw
                 else if alpha \<noteq> 0 then mix_masks alpha raw prev
                 else prev)
      in (Some new_mask, new_mask))"

text \<open>
  Successive frames: the stored mask is threaded through, the masks used for the
  frames are collected.
\<close>

fun smooth_masks :: "real \<Rightarrow> mask_t list \<Rightarrow> mask_t option \<Rightarrow> mask_t option \<times> mask_t list" where
  "smooth_masks alpha [] old = (old, [])"
| "smooth_masks alpha (raw # raws) old =
     (let (old1, m) = smooth_mask alpha raw old;
          (old2, ms) = smooth_masks alpha raws old1
      in (old2, m # ms))"

subsection \<open>Background replacement (\<^verbatim>\<open>sigmoid\<close>, lines 448-452; \<^verbatim>\<open>compose_frame\<close>, lines 296-300)\<close>

text \<open>\<^verbatim>\<open>def sigmoid(x, a=5., b=-10.)\<close>, on one element of the array.\<close>

definition sigmoid :: "real \<Rightarrow> real \<Rightarrow> real \<Rightarrow> real" where
  "sigmoid x a b = (let z = exp (a + b * x); sig = 1 / (1 + z) in sig)"

text \<open>
  The same function on an element of a \<^verbatim>\<open>float32\<close> array, as \<^verbatim>\<open>compose_frame\<close> calls
  it: \<open>fl\<close> rounds the exact result of an operation to \<^verbatim>\<open>float32\<close>, \<open>fexp\<close> is
  \<^verbatim>\<open>np.exp\<close> on a \<^verbatim>\<open>float32\<close>. The Python floats \<open>a\<close> and \<open>b\<close> do not widen the
  array.
\<close>

definition sigmoid_f32 :: "(real \<Rightarrow> real) \<Rightarrow> (real \<Rightarrow> real) \<Rightarrow> real \<Rightarrow> real \<Rightarrow> real \<Rightarrow> real" where
  "sigmoid_f32 fl fexp x a b =
     (let z = fexp (fl (a + fl (b * x))); sig = fl (1 / fl (1 + z)) in sig)"

text \<open>\<^verbatim>\<open>sigmoid(mask)\<close>: the default \<open>a\<close> and \<open>b\<close>, applied to every element.\<close>

definition sigmoid_mask :: "(real \<Rightarrow> real) \<Rightarrow> (real \<Rightarrow> real) \<Rightarrow> mask_t \<Rightarrow> mask_t" where
  "sigmoid_mask fl fexp m = map (map (\<lambda>x. sigmoid_f32 fl fexp x 5 (- 10))) m"

text \<open>
  Storing a floating-point value into a \<^verbatim>\<open>uint8\<close> array drops the fraction (towards
  zero). The values stored by the blend lie between 0 and 255; for a value outside
  that range, which the C conversion leaves open, the model wraps.
\<close>

definition py_trunc :: "real \<Rightarrow> int" where
  "py_trunc x = (if 0 \<le> x then \<lfloor>x\<rfloor> else \<lceil>x\<rceil>)"

definition to_uint8 :: "real \<Rightarrow> 8 word" where
  "to_uint8 x = word_of_int (py_trunc x)"

text \<open>A frame is indexed \<open>[row][column][channel]\<close>, a mask \<open>[row][column]\<close>.\<close>

type_synonym frame_t = "8 word list list list"

text \<open>
  \<^verbatim>\<open>p * sigmoid_mask + q * (1 - sigmoid_mask)\<close> for one element: a \<^verbatim>\<open>uint8\<close> times a
  \<^verbatim>\<open>float32\<close> is a \<^verbatim>\<open>float32\<close>, so the two products, the difference and the sum are
  each rounded; the sum is then stored as \<^verbatim>\<open>uint8\<close>.
\<close>

definition blend_value :: "(real \<Rightarrow> real) \<Rightarrow> 8 word \<Rightarrow> real \<Rightarrow> 8 word \<Rightarrow> 8 word" where
  "blend_value fl p s q =
     to_uint8 (fl (fl (real (unat p) * s) + fl (real (unat q) * fl (1 - s))))"

text \<open>
  The body of \<^verbatim>\<open>for c in range(frame.shape[2])\<close>: channel \<open>c\<close> of every pixel is
  overwritten. The three arrays have one height and width (numpy raises or broadcasts
  otherwise; the properties below assume the common shape).
\<close>

definition blend_channel ::
  "(real \<Rightarrow> real) \<Rightarrow> nat \<Rightarrow> mask_t \<Rightarrow> frame_t \<Rightarrow> frame_t \<Rightarrow> frame_t" where
  "blend_channel fl c sm bg frame =
     map (\<lambda>((frow, srow), brow).
            map (\<lambda>((px, s), bpx). px[c := blend_value fl (px ! c) s (bpx ! c)])
              (zip (zip frow srow) brow))
       (zip (zip frame sm) bg)"

text \<open>\<^verbatim>\<open>frame.shape[2]\<close>; a frame without pixels has no channel to blend.\<close>

definition nchannels :: "frame_t \<Rightarrow> nat" where
  "nchannels frame =
     (case frame of [] \<Rightarrow> 0 | row # _ \<Rightarrow> (case row of [] \<Rightarrow> 0 | px # _ \<Rightarrow> length px))"

definition replace_background ::
  "(real \<Rightarrow> real) \<Rightarrow> (real \<Rightarrow> real) \<Rightarrow> frame_t \<Rightarrow> mask_t \<Rightarrow> frame_t \<Rightarrow> frame_t" where
  "replace_background fl fexp frame m background_frame =
     (let sm = sigmoid_mask fl fexp m
      in foldl (\<lambda>f c. blend_channel fl c sm background_frame f) frame [0..<nchannels frame])"

text \<open>
  What the properties below ask of the two parameters, and what rounding to nearest in
  \<^verbatim>\<open>float32\<close> and a \<^verbatim>\<open>float32\<close> exponential give with room to spare (their relative error
  is near \<open>2 ^ - 24\<close>): zero is kept, and in the range of the values that occur the
  relative error is at most one part in ten thousand.
\<close>

definition rounds_nearly :: "(real \<Rightarrow> real) \<Rightarrow> bool" where
  "rounds_nearly fl \<longleftrightarrow>
     fl 0 = 0 \<and> (\<forall>x. 1/1000 \<le> \<bar>x\<bar> \<and> \<bar>x\<bar> \<le> 1000 \<longrightarrow> \<bar>fl x - x\<bar> \<le> \<bar>x\<bar> / 10000)"

definition exp_nearly :: "(real \<Rightarrow> real) \<Rightarrow> bool" where
  "exp_nearly fexp \<longleftrightarrow> (\<forall>x. 4 \<le> x \<and> x \<le> 6 \<longrightarrow> \<bar>fexp x - exp x\<bar> \<le> exp x / 10000)"

text \<open>Shapes: \<open>h\<close> rows, \<open>w\<close> columns, \<open>n\<close> channels.\<close>

definition is_frame :: "nat \<Rightarrow> nat \<Rightarrow> nat \<Rightarrow> frame_t \<Rightarrow> bool" where
  "is_frame h w n f \<longleftrightarrow>
     length f = h \<and> (\<forall>i<h. length (f ! i) = w \<and> (\<forall>j<w. length (f ! i ! j) = n))"

definition is_mask :: "nat \<Rightarrow> nat \<Rightarrow> mask_t \<Rightarrow> bool" where
  "is_mask h w m \<longleftrightarrow> length m = h \<and> (\<forall>i<h. length (m ! i) = w)"

subsection \<open>Static backgrounds (\<^verbatim>\<open>resize_image\<close>, lines 170-185; \<^verbatim>\<open>load_images\<close>, lines 190-204)\<close>

text \<open>
  An image as \<^verbatim>\<open>cv2.imread\<close> returns it: rows of pixels. \<^verbatim>\<open>shape[0]\<close> is the number of
  rows, \<^verbatim>\<open>shape[1]\<close> the length of a row.
\<close>

type_synonym 'a image = "'a list list"

definition img_height :: "'a image \<Rightarrow> int" where
  "img_height img = int (length img)"

definition img_width :: "'a image \<Rightarrow> int" where
  "img_width img = (case img of [] \<Rightarrow> 0 | row # _ \<Rightarrow> int (length row))"

definition is_image :: "nat \<Rightarrow> nat \<Rightarrow> 'a image \<Rightarrow> bool" where
  "is_image h w img \<longleftrightarrow> length img = h \<and> (\<forall>i<h. length (img ! i) = w)"

text \<open>
  The Python slice \<^verbatim>\<open>xs[a:b]\<close>: a negative bound counts from the end, and both bounds
  are clipped to the list.
\<close>

definition py_slice :: "'a list \<Rightarrow> int \<Rightarrow> int \<Rightarrow> 'a list" where
  "py_slice xs a b =
     (let n = int (length xs);
          a' = (if a < 0 then max (a + n) 0 else min a n);
          b' = (if b < 0 then max (b + n) 0 else min b n)
      in take (nat (b' - a')) (drop (nat a') xs))"

text \<open>\<^verbatim>\<open>img[y0:y1, x0:x1]\<close>.\<close>

definition crop :: "'a image \<Rightarrow> int \<Rightarrow> int \<Rightarrow> int \<Rightarrow> int \<Rightarrow> 'a image" where
  "crop img y0 y1 x0 x1 = map (\<lambda>row. py_slice row x0 x1) (py_slice img y0 y1)"

text \<open>\<^verbatim>\<open>np.tile(img, (repy, repx, 1))\<close>.\<close>

definition tile :: "'a image \<Rightarrow> nat \<Rightarrow> nat \<Rightarrow> 'a image" where
  "tile img repy repx = concat (replicate repy (map (\<lambda>row. concat (replicate repx row)) img))"

text \<open>Lines 176-180 of \<^verbatim>\<open>resize_image\<close>: the region that is cut out before scaling.\<close>

definition crop_box :: "int \<Rightarrow> int \<Rightarrow> int \<Rightarrow> int \<Rightarrow> int \<times> int \<times> int \<times> int" where
  "crop_box width height imgwidth imgheight =
     (let scale = max (real_of_int width / real_of_int imgwidth)
                      (real_of_int height / real_of_int imgheight);
          newimgwidth = \<lfloor>real_of_int width / scale\<rfloor>;
          newimgheight = \<lfloor>real_of_int height / scale\<rfloor>;
          ix0 = \<lfloor>0.5 * real_of_int imgwidth - 0.5 * real_of_int newimgwidth\<rfloor>;
          iy0 = \<lfloor>0.5 * real_of_int imgheight - 0.5 * real_of_int newimgheight\<rfloor>
      in (ix0, iy0, newimgwidth, newimgheight))"

text \<open>
  \<^verbatim>\<open>resize_image\<close>. \<open>cv_resize src w h\<close> stands for \<^verbatim>\<open>cv2.resize(src, (w, h))\<close>, which
  returns an image of \<open>h\<close> rows and \<open>w\<close> columns when \<open>src\<close> has a pixel and raises
  \<^verbatim>\<open>cv2.error\<close> when \<open>src\<close> is empty.
\<close>

definition resize_image ::
  "('a image \<Rightarrow> int \<Rightarrow> int \<Rightarrow> error + 'a image) \<Rightarrow> int \<Rightarrow> int \<Rightarrow> 'a image \<Rightarrow> bool
     \<Rightarrow> error + 'a image" where
  "resize_image cv_resize width height img keep_aspect =
     (if width = 0 \<or> height = 0 then Inl RuntimeError
      else if keep_aspect then
        (let imgheight = img_height img; imgwidth = img_width img
         in if imgwidth = 0 \<or> imgheight = 0 then Inl ZeroDivisionError
            else (case crop_box width height imgwidth imgheight of
                    (ix0, iy0, newimgwidth, newimgheight) \<Rightarrow>
                      cv_resize (crop img iy0 (iy0 + newimgheight) ix0 (ix0 + newimgwidth))
                        width height))
      else cv_resize img width height)"

text \<open>
  Lines 192-203 of \<^verbatim>\<open>load_images\<close>, for a background that \<^verbatim>\<open>cv2.imread\<close> could read.
  \<^verbatim>\<open>//\<close> on Python integers rounds down, as \<open>div\<close> on \<^typ>\<open>int\<close> does; \<^verbatim>\<open>np.tile\<close>
  refuses a negative repetition count.
\<close>

definition load_static_background ::
  "('a image \<Rightarrow> int \<Rightarrow> int \<Rightarrow> error + 'a image) \<Rightarrow> bool \<Rightarrow> bool \<Rightarrow> int \<Rightarrow> int \<Rightarrow> 'a image
     \<Rightarrow> error + 'a image" where
  "load_static_background cv_resize tiling keep_aspect width height background =
     (if \<not> tiling then resize_image cv_resize width height background keep_aspect
      else
        (let sizey = img_height background; sizex = img_width background
         in if sizex > width \<and> sizey > height then cv_resize background width height
            else if sizex = 0 \<or> sizey = 0 then Inl ZeroDivisionError
            else
              (let repx = (width - 1) div sizex + 1;
                   repy = (height - 1) div sizey + 1
               in if repx < 0 \<or> repy < 0 then Inl ValueError
                  else Inr (crop (tile background (nat repy) (nat repx)) 0 height 0 width))))"

subsection \<open>Video backgrounds (\<^verbatim>\<open>load_images\<close>, lines 206-236)\<close>

text \<open>
  \<^verbatim>\<open>read_frame\<close>. \<open>vread\<close> stands for \<^verbatim>\<open>background_video.read()\<close>, which returns a frame
  or reports that it has none and may move the capture; \<open>vrewind\<close> stands for
  \<^verbatim>\<open>background_video.set(cv2.CAP_PROP_POS_FRAMES, 0)\<close>; \<open>resize\<close> is
  \<^verbatim>\<open>self.resize_image\<close> with the configured \<^verbatim>\<open>keep_aspect\<close>. The failed \<^verbatim>\<open>assert\<close>
  is the error \<open>AssertionError\<close>.
\<close>

definition read_frame ::
  "('v \<Rightarrow> 'f option \<times> 'v) \<Rightarrow> ('v \<Rightarrow> 'v) \<Rightarrow> ('f \<Rightarrow> error + 'g) \<Rightarrow> 'v \<Rightarrow> (error + 'g) \<times> 'v" where
  "read_frame vread vrewind resize v =
     (case vread v of
        (Some frame, v1) \<Rightarrow> (resize frame, v1)
      | (None, v1) \<Rightarrow>
          (case vread (vrewind v1) of
             (Some frame, v2) \<Rightarrow> (resize frame, v2)
           | (None, v2) \<Rightarrow> (Inl AssertionError, v2)))"

text \<open>
  Python's \<^verbatim>\<open>round\<close> on a float: the nearest integer, and the even one of the two when
  the value lies half-way.
\<close>

definition py_round :: "real \<Rightarrow> int" where
  "py_round x =
     (let f = \<lfloor>x\<rfloor>; d = x - of_int f
      in if d < 1/2 then f else if 1/2 < d then f + 1 else if even f then f else f + 1)"

text \<open>
  Lines 224-232: the value assigned to \<^verbatim>\<open>self.bg_video_adv_rate\<close>. \<open>u\<close> is the value
  \<^verbatim>\<open>np.random.uniform()\<close> returns when it is called. Dividing by a zero
  \<^verbatim>\<open>current_fps\<close> raises.
\<close>

definition bg_video_adv_rate :: "real \<Rightarrow> real \<Rightarrow> real \<Rightarrow> error + int" where
  "bg_video_adv_rate bg_video_fps current_fps u =
     (if current_fps = 0 then Inl ZeroDivisionError
      else
        (let advrate = bg_video_fps / current_fps
         in if advrate < 1 then Inr (if u < advrate then 1 else 0)
            else Inr (py_round advrate)))"

text \<open>
  \<^verbatim>\<open>for i in range(n): frame = read_frame()\<close>. The state is the capture and the local
  variable \<^verbatim>\<open>frame\<close> of the generator, \<open>None\<close> while it is unbound.
\<close>

fun read_frames ::
  "('v \<Rightarrow> (error + 'g) \<times> 'v) \<Rightarrow> nat \<Rightarrow> 'v \<times> 'g option \<Rightarrow> error + 'v \<times> 'g option" where
  "read_frames rf 0 s = Inr s"
| "read_frames rf (Suc n) (v, frame) =
     (case rf v of
        (Inl e, v1) \<Rightarrow> Inl e
      | (Inr f, v1) \<Rightarrow> read_frames rf n (v1, Some f))"

text \<open>
  One \<^verbatim>\<open>next()\<close> on the generator \<^verbatim>\<open>next_frame\<close>: one pass through the body of its loop,
  up to the \<^verbatim>\<open>yield\<close>. \<^verbatim>\<open>range(k)\<close> is empty for \<open>k \<le> 0\<close>. The result is the frame
  yielded and the state the generator is left in, or the exception raised.
\<close>

definition next_frame ::
  "('v \<Rightarrow> (error + 'g) \<times> 'v) \<Rightarrow> real \<Rightarrow> real \<Rightarrow> real \<Rightarrow> 'v \<times> 'g option
     \<Rightarrow> error + 'g \<times> ('v \<times> 'g option)" where
  "next_frame rf bg_video_fps current_fps u s =
     (case bg_video_adv_rate bg_video_fps current_fps u of
        Inl e \<Rightarrow> Inl e
      | Inr k \<Rightarrow>
          (case read_frames rf (nat k) s of
             Inl e \<Rightarrow> Inl e
           | Inr (v1, frame) \<Rightarrow>
               (case frame of
                  None \<Rightarrow> Inl UnboundLocalError
                | Some f \<Rightarrow> Inr (f, (v1, frame)))))"

text \<open>
  A video file for \<open>vread\<close> and \<open>vrewind\<close>: the list of its frames and the index of the
  frame that is read next. Reading at the end of the list fails and moves nothing.
\<close>

record 'f video =
  frames :: "'f list"
  pos :: nat

definition video_read :: "'f video \<Rightarrow> 'f option \<times> 'f video" where
  "video_read v =
     (if pos v < length (frames v) then (Some (frames v ! pos v), v\<lparr>pos := pos v + 1\<rparr>)
      else (None, v))"

definition video_rewind :: "'f video \<Rightarrow> 'f video" where
  "video_rewind v = v\<lparr>pos := 0\<rparr>"

subsection \<open>Rounding to \<^verbatim>\<open>float32\<close>\<close>

text \<open>
  An instance of the rounding \<open>fl\<close>: to the nearest number with a significand of 24
  bits, half-way values to the even one, for an exponent that is not bounded (no
  overflow, no subnormal numbers).
\<close>

definition f32 :: "real \<Rightarrow> real" where
  "f32 x =
     (if x = 0 then 0
      else (let e = \<lfloor>log 2 \<bar>x\<bar>\<rfloor> - 23
            in of_int (py_round (x / 2 powr of_int e)) * 2 powr of_int e))"

section \<open>Properties\<close>

subsection \<open>Consumer lifecycle\<close>

lemma process_event_cases:
  "process_event s ev = s\<lparr>consumers := foldl count_flag (consumers s) ev, paused := False\<rparr>
     \<and> 0 < foldl count_flag (consumers s) ev
   \<or> process_event s ev = s\<lparr>consumers := 0, paused := True\<rparr>"
  by (simp add: process_event_def Let_def)

lemma process_event_inv:
  "0 \<le> consumers (process_event s ev)
   \<and> paused (process_event s ev) = (consumers (process_event s ev) = 0)"
  using process_event_cases [of s ev] by auto

lemma process_events_snoc:
  "process_events s (evs @ [ev]) = process_event (process_events s evs) ev"
  by (simp add: process_events_def)

lemma process_events_inv:
  "0 \<le> consumers (process_events ondemand_start evs)
   \<and> paused (process_events ondemand_start evs)
       = (consumers (process_events ondemand_start evs) = 0)"
proof (cases evs rule: rev_cases)
  case Nil
  then show ?thesis by (simp add: process_events_def ondemand_start_def)
next
  case (snoc evs' ev)
  then show ?thesis
    using process_event_inv [of "process_events ondemand_start evs'" ev]
    by (simp only: process_events_snoc)
qed

lemma run_steps_snoc: "run_steps s (steps @ [st]) = apply_step (run_steps s steps) st"
  by (simp add: run_steps_def)

lemma run_steps_consumers: "0 \<le> consumers (run_steps ondemand_start steps)"
proof (induction steps rule: rev_induct)
  case Nil
  then show ?case by (simp add: run_steps_def ondemand_start_def)
next
  case (snoc st steps)
  show ?case
  proof (cases st)
    case (Event ev)
    then show ?thesis
      using process_event_inv [of "run_steps ondemand_start steps" ev]
      by (simp add: run_steps_snoc apply_step_def)
  next
    case Sigquit
    then show ?thesis
      using snoc.IH by (simp add: run_steps_snoc apply_step_def toggle_pause_def)
  qed
qed

lemma run_steps_after_event:
  "paused (run_steps ondemand_start (steps @ [Event ev]))
     = (consumers (run_steps ondemand_start (steps @ [Event ev])) = 0)"
  using process_event_inv [of "run_steps ondemand_start steps" ev]
  by (simp add: run_steps_snoc apply_step_def)

lemma process_event_single:
  "consumers (process_event s [OPEN]) = max (consumers s + 1) 0"
  "consumers (process_event s [CLOSE_NOWRITE]) = max (consumers s - 1) 0"
  "consumers (process_event s [CLOSE_WRITE]) = max (consumers s - 1) 0"
  by (simp_all add: process_event_def count_flag_def Let_def max_def)

text \<open>
  Claim C5, as the specification states it: in on-demand mode \<open>paused\<close> holds exactly
  when the consumer count is 0, in every reachable state. SIGQUIT on the start state
  reaches the active state with no consumer, and SIGQUIT after an open event reaches
  the paused state with one consumer.
\<close>

theorem toggle_pause_breaks_equivalence:
  "\<not> (paused (run_steps ondemand_start [Sigquit])
          = (consumers (run_steps ondemand_start [Sigquit]) = 0))
   \<and> \<not> (paused (run_steps ondemand_start [Event [OPEN], Sigquit])
          = (consumers (run_steps ondemand_start [Event [OPEN], Sigquit]) = 0))"
  by (simp add: run_steps_def apply_step_def toggle_pause_def process_event_def
      count_flag_def ondemand_start_def)

text \<open>
  Claim C5, amended. From the on-demand start state (no consumer, paused) and under
  any sequence of device events and SIGQUIT signals the consumer count is never
  negative. The processing of an event leaves \<open>paused\<close> true exactly when the count is
  0, from whatever state it starts: so the equivalence holds right after every event,
  also when signals came before it, and in every state reached by events alone.
  \<^verbatim>\<open>toggle_pause\<close> flips \<open>paused\<close> and keeps the count, so between a signal and the next
  event the equivalence may fail. An open event adds one consumer, a close event
  (with or without write) removes one and stops at 0: on the start state an open event
  gives one consumer and the active state, a close-without-write event then gives no
  consumer and the paused state, and a further close leaves the count at 0.
\<close>

theorem consumer_lifecycle_invariant:
  "0 \<le> consumers (run_steps ondemand_start steps)
   \<and> paused (run_steps ondemand_start (steps @ [Event ev]))
       = (consumers (run_steps ondemand_start (steps @ [Event ev])) = 0)
   \<and> 0 \<le> consumers (process_event s ev)
   \<and> paused (process_event s ev) = (consumers (process_event s ev) = 0)
   \<and> 0 \<le> consumers (process_events ondemand_start evs)
   \<and> paused (process_events ondemand_start evs)
       = (consumers (process_events ondemand_start evs) = 0)
   \<and> consumers (toggle_pause s) = consumers s
   \<and> paused (toggle_pause s) = (\<not> paused s)
   \<and> consumers (process_event s [OPEN]) = max (consumers s + 1) 0
   \<and> consumers (process_event s [CLOSE_NOWRITE]) = max (consumers s - 1) 0
   \<and> consumers (process_event s [CLOSE_WRITE]) = max (consumers s - 1) 0
   \<and> process_events ondemand_start [[OPEN]] = \<lparr>consumers = 1, paused = False\<rparr>
   \<and> process_events ondemand_start [[OPEN], [CLOSE_NOWRITE]] = \<lparr>consumers = 0, paused = True\<rparr>
   \<and> process_events ondemand_start [[OPEN], [CLOSE_NOWRITE], [CLOSE_NOWRITE]]
       = \<lparr>consumers = 0, paused = True\<rparr>"
proof -
  have ex: "process_events ondemand_start [[OPEN]] = \<lparr>consumers = 1, paused = False\<rparr>"
    "process_events ondemand_start [[OPEN], [CLOSE_NOWRITE]] = \<lparr>consumers = 0, paused = True\<rparr>"
    "process_events ondemand_start [[OPEN], [CLOSE_NOWRITE], [CLOSE_NOWRITE]]
       = \<lparr>consumers = 0, paused = True\<rparr>"
    by (simp_all add: process_events_def process_event_def count_flag_def ondemand_start_def)
  have tg: "consumers (toggle_pause s) = consumers s" "paused (toggle_pause s) = (\<not> paused s)"
    by (simp_all add: toggle_pause_def)
  from ex tg run_steps_consumers [of steps] run_steps_after_event [of steps ev]
    process_event_inv [of s ev] process_events_inv [of evs] process_event_single [of s]
  show ?thesis by blast
qed

subsection \<open>Mask smoothing\<close>

text \<open>
  Claim C2. With \<open>alpha = 1\<close> the smoothing step stores the raw mask and uses it for the
  frame, whatever mask was stored before and also when none was.
\<close>

theorem smooth_mask_alpha_one:
  "smooth_mask 1 raw old_mask = (Some raw, raw)"
  by (simp add: smooth_mask_def split: option.split)

lemma smooth_mask_zero_Some:
  "smooth_mask 0 raw (Some prev) = (Some prev, prev)"
  by (simp add: smooth_mask_def)

lemma smooth_masks_zero_Some:
  "smooth_masks 0 raws (Some prev) = (Some prev, replicate (length raws) prev)"
  by (induction raws) (simp_all add: smooth_mask_zero_Some)

text \<open>
  Claim C3. With \<open>alpha = 0\<close> and no mask stored, the first frame stores its raw mask;
  every later frame leaves the stored mask as it is and is composed with that first
  mask, whatever its own raw mask is.
\<close>

theorem smooth_masks_alpha_zero_frozen:
  "smooth_mask 0 raw None = (Some raw, raw)
   \<and> smooth_mask 0 raw' (Some raw) = (Some raw, raw)
   \<and> smooth_masks 0 (raw # raws) None = (Some raw, replicate (Suc (length raws)) raw)"
  by (simp add: smooth_mask_def smooth_masks_zero_Some)

text \<open>Between the two, the stored mask is the weighted mean that line 278 computes.\<close>

lemma smooth_mask_mix:
  "alpha \<noteq> 1 \<Longrightarrow> alpha \<noteq> 0 \<Longrightarrow>
     smooth_mask alpha raw (Some prev) = (Some (mix_masks alpha raw prev), mix_masks alpha raw prev)"
  by (simp add: smooth_mask_def Let_def)

subsection \<open>The sigmoid\<close>

lemma sigmoid_default: "sigmoid x 5 (- 10) = 1 / (1 + exp (5 - 10 * x))"
  by (simp add: sigmoid_def)

text \<open>
  Claim C6, as the specification states it: the blending weight at mask value 0.5 is the
  value of the formula there and differs from 0.5. It does not differ: the exponent is 0.
\<close>

theorem sigmoid_half_counterexample:
  "\<not> (sigmoid (1/2) 5 (- 10) = 1 / (1 + exp (5 - 10 * (1/2))) \<and> sigmoid (1/2) 5 (- 10) \<noteq> 1/2)"
  by (simp add: sigmoid_def)

text \<open>
  Claim C6, amended: at mask value 0.5 the blending weight is the value of the formula
  there, and that value is exactly 0.5.
\<close>

theorem sigmoid_half_exact:
  "sigmoid (1/2) 5 (- 10) = 1 / (1 + exp (5 - 10 * (1/2))) \<and> sigmoid (1/2) 5 (- 10) = 1/2"
  by (simp add: sigmoid_def)

lemma sigmoid_f32_exact: "sigmoid_f32 (\<lambda>x. x) exp x a b = sigmoid x a b"
  by (simp add: sigmoid_f32_def sigmoid_def)

text \<open>
  The weight at mask value 0 and the value stored for a black pixel on a white
  background, for every rounding and exponential within the stated error: the exponent
  lies between \<open>79/16\<close> and \<open>81/16\<close>, its exponential between 138 and 183.
\<close>

lemma exp_79_16: "(138::real) \<le> exp (79/16)"
proof -
  have q: "(545/512::real) \<le> exp (1/16)"
    using exp_lower_Taylor_quadratic [of "1/16::real"] by (simp add: power2_eq_square)
  have "exp (79/16::real) = exp (of_nat 79 * (1/16))" by simp
  also have "\<dots> = exp (1/16) ^ 79" by (rule exp_of_nat_mult)
  finally have e: "exp (79/16::real) = exp (1/16) ^ 79" .
  have "(545/512::real) ^ 79 \<le> exp (1/16) ^ 79" by (rule power_mono) (use q in simp_all)
  moreover have "(138::real) \<le> (545/512) ^ 79" by (simp add: power_divide)
  ultimately show ?thesis using e by linarith
qed

lemma exp_81_16: "exp (81/16) \<le> (183::real)"
proof -
  have q: "exp (1/16) \<le> (273/256::real)"
    using exp_bound [of "1/16::real"] by (simp add: power2_eq_square)
  have "exp (81/16::real) = exp (of_nat 81 * (1/16))" by simp
  also have "\<dots> = exp (1/16) ^ 81" by (rule exp_of_nat_mult)
  finally have e: "exp (81/16::real) = exp (1/16) ^ 81" .
  have "exp (1/16) ^ 81 \<le> (273/256::real) ^ 81" by (rule power_mono) (use q in simp_all)
  moreover have "(273/256) ^ 81 \<le> (183::real)" by (simp add: power_divide)
  ultimately show ?thesis using e by linarith
qed

lemma white_value:
  assumes fl: "rounds_nearly fl" and fexp: "exp_nearly fexp"
  shows "blend_value fl 0 (sigmoid_f32 fl fexp 0 5 (- 10)) 255 = 253"
proof -
  have z0: "fl 0 = 0"
    and rnd: "\<And>x. 1/1000 \<le> \<bar>x\<bar> \<Longrightarrow> \<bar>x\<bar> \<le> 1000 \<Longrightarrow> \<bar>fl x - x\<bar> \<le> \<bar>x\<bar> / 10000"
    using fl by (simp_all add: rounds_nearly_def)
  have ex: "\<And>x. 4 \<le> x \<Longrightarrow> x \<le> 6 \<Longrightarrow> \<bar>fexp x - exp x\<bar> \<le> exp x / 10000"
    using fexp by (simp add: exp_nearly_def)
  have near: "lo * (9999/10000) \<le> fl x \<and> fl x \<le> hi * (10001/10000)"
    if "lo \<le> x" "x \<le> hi" "1/1000 \<le> lo" "hi \<le> 1000" for lo hi x
  proof -
    have "\<bar>fl x - x\<bar> \<le> \<bar>x\<bar> / 10000" using that by (intro rnd) linarith+
    with that show ?thesis by linarith
  qed
  define y where "y = fl (5 + fl (- 10 * 0))"
  define z where "z = fexp y"
  define w where "w = fl (1 + z)"
  define s where "s = fl (1 / w)"
  define t where "t = fl (1 - s)"
  define b where "b = fl (255 * t)"
  define v where "v = fl (fl (0 * s) + b)"
  have y: "79/16 \<le> y" "y \<le> 81/16"
    using near [of 5 5 5] by (simp_all add: y_def z0)
  have "exp (79/16) \<le> exp y" "exp y \<le> exp (81/16)" using y by simp_all
  then have ey: "138 \<le> exp y" "exp y \<le> 183" using exp_79_16 exp_81_16 by linarith+
  have "\<bar>z - exp y\<bar> \<le> exp y / 10000" unfolding z_def using y by (intro ex) linarith+
  then have z: "137 \<le> z" "z \<le> 184" using ey by linarith+
  have w: "137 \<le> w" "w \<le> 186"
    using near [of 138 "1 + z" 185] z by (simp_all add: w_def)
  have "1/186 \<le> 1 / w" "1 / w \<le> 1/137" using w by (simp_all add: field_simps)
  then have s: "1/187 \<le> s" "s \<le> 1/136"
    using near [of "1/186" "1 / w" "1/137"] by (simp_all add: s_def)
  have t: "9925/10000 \<le> t" "t \<le> 9948/10000"
    using near [of "135/136" "1 - s" "186/187"] s by (simp_all add: t_def)
  have b: "25306/100 \<le> b" "b \<le> 25370/100"
    using near [of "255 * (9925/10000)" "255 * t" "255 * (9948/10000)"] t by (simp_all add: b_def)
  have v: "253 \<le> v" "v < 254"
    using near [of "25306/100" b "25370/100"] b by (simp_all add: v_def z0)
  then have "\<lfloor>v\<rfloor> = 253" by (simp add: floor_eq_iff)
  then have "to_uint8 v = 253" using v by (simp add: to_uint8_def py_trunc_def)
  then show ?thesis
    by (simp add: blend_value_def sigmoid_f32_def v_def b_def t_def s_def w_def z_def y_def)
qed

text \<open>
  The rounding \<open>f32\<close> is within \<open>2 ^ - 24\<close> of its argument, relatively. It is not the
  identity: with it, the blend of two white pixels at the weight \<open>14176903 / 2 ^ 25\<close>
  stores 254, where exact arithmetic would give 255.
\<close>

lemma py_round_error: "\<bar>of_int (py_round y) - y\<bar> \<le> 1/2"
proof -
  have "of_int \<lfloor>y\<rfloor> \<le> y" "y < of_int \<lfloor>y\<rfloor> + 1" by linarith+
  then show ?thesis
    by (auto simp: py_round_def Let_def)
qed

lemma f32_error: "\<bar>f32 x - x\<bar> \<le> \<bar>x\<bar> / 2 ^ 24"
proof (cases "x = 0")
  case True
  then show ?thesis by (simp add: f32_def)
next
  case False
  define e where "e = \<lfloor>log 2 \<bar>x\<bar>\<rfloor> - 23"
  define u :: real where "u = 2 powr of_int e"
  have u: "0 < u" by (simp add: u_def)
  have "of_int e \<le> log 2 \<bar>x\<bar> - 23" by (simp add: e_def)
  then have "u \<le> 2 powr (log 2 \<bar>x\<bar> - 23)" unfolding u_def by simp
  also have "\<dots> = \<bar>x\<bar> / 2 ^ 23" using False by (simp add: powr_diff powr_numeral)
  finally have ub: "u \<le> \<bar>x\<bar> / 2 ^ 23" .
  have "f32 x - x = (of_int (py_round (x / u)) - x / u) * u"
    using False u by (simp add: f32_def e_def u_def Let_def algebra_simps)
  then have "\<bar>f32 x - x\<bar> = \<bar>of_int (py_round (x / u)) - x / u\<bar> * u"
    using u by (simp add: abs_mult)
  also have "\<dots> \<le> 1/2 * u"
    using py_round_error [of "x / u"] u by (intro mult_right_mono) simp_all
  also have "\<dots> \<le> \<bar>x\<bar> / 2 ^ 24" using ub by simp
  finally show ?thesis .
qed

lemma f32_rounds_nearly: "rounds_nearly f32"
proof -
  have "\<bar>f32 x - x\<bar> \<le> \<bar>x\<bar> / 10000" for x
  proof -
    have "\<bar>x\<bar> / 2 ^ 24 \<le> \<bar>x\<bar> / 10000" by (simp add: field_simps)
    with f32_error [of x] show ?thesis by linarith
  qed
  then show ?thesis by (simp add: rounds_nearly_def f32_def)
qed

lemma f32_exp_nearly: "exp_nearly (\<lambda>x. f32 (exp x))"
proof -
  have "\<bar>f32 (exp x) - exp x\<bar> \<le> exp x / 10000" for x :: real
  proof -
    have "\<bar>exp x\<bar> / 2 ^ 24 \<le> exp x / 10000" by (simp add: field_simps)
    with f32_error [of "exp x"] show ?thesis by linarith
  qed
  then show ?thesis by (simp add: exp_nearly_def)
qed

lemma f32_at:
  assumes "2 powr of_int k \<le> \<bar>x\<bar>" "\<bar>x\<bar> < 2 powr of_int (k + 1)"
  shows "f32 x = of_int (py_round (x / 2 powr of_int (k - 23))) * 2 powr of_int (k - 23)"
proof -
  have x: "x \<noteq> 0" using assms(1) by (smt (verit) powr_gt_zero)
  have "of_int k \<le> log 2 \<bar>x\<bar>" using assms(1) x by (simp add: le_log_iff)
  moreover have "log 2 \<bar>x\<bar> < of_int (k + 1)" using assms(2) x by (simp add: log_less_iff)
  ultimately have "\<lfloor>log 2 \<bar>x\<bar>\<rfloor> = k" by (simp add: floor_eq_iff)
  then show ?thesis using x by (simp add: f32_def Let_def)
qed

lemma f32_example:
  "blend_value f32 255 (14176903/33554432) 255 = 254"
proof -
  have a: "f32 (3615110265/33554432) = 3530381/32768"
    using f32_at [of 6 "3615110265/33554432"]
    by (simp add: py_round_def Let_def powr_minus)
  have t: "f32 (19377529/33554432) = 2422191/4194304"
    using f32_at [of "- 1" "19377529/33554432"]
    by (simp add: py_round_def Let_def powr_minus)
  have b: "f32 (617658705/4194304) = 9650917/65536"
    using f32_at [of 7 "617658705/4194304"]
    by (simp add: py_round_def Let_def powr_minus)
  have v: "f32 (16711679/65536) = 16711679/65536"
    using f32_at [of 7 "16711679/65536"]
    by (simp add: py_round_def Let_def powr_minus)
  show ?thesis
    by (simp add: blend_value_def a t b v to_uint8_def py_trunc_def)
qed

lemma blend_value_exact_example:
  "blend_value (\<lambda>x. x) 255 (14176903/33554432) 255 = 255"
  by (simp add: blend_value_def to_uint8_def py_trunc_def)

subsection \<open>Background replacement\<close>

lemma is_mask_sigmoid: "is_mask h w m \<Longrightarrow> is_mask h w (sigmoid_mask fl fexp m)"
  by (simp add: is_mask_def sigmoid_mask_def)

lemma sigmoid_mask_nth:
  "is_mask h w m \<Longrightarrow> i < h \<Longrightarrow> j < w \<Longrightarrow> sigmoid_mask fl fexp m ! i ! j = sigmoid_f32 fl fexp (m ! i ! j) 5 (- 10)"
  by (simp add: is_mask_def sigmoid_mask_def)

lemma blend_channel_length:
  "is_frame h w n f \<Longrightarrow> is_frame h w n bg \<Longrightarrow> is_mask h w sm \<Longrightarrow> length (blend_channel fl c sm bg f) = h"
  by (simp add: blend_channel_def is_frame_def is_mask_def)

lemma blend_channel_row:
  assumes "is_frame h w n f" "is_frame h w n bg" "is_mask h w sm" "i < h"
  shows "blend_channel fl c sm bg f ! i =
     map (\<lambda>((px, s), bpx). px[c := blend_value fl (px ! c) s (bpx ! c)])
       (zip (zip (f ! i) (sm ! i)) (bg ! i))"
  using assms by (simp add: blend_channel_def is_frame_def is_mask_def)

lemma blend_channel_pixel:
  assumes "is_frame h w n f" "is_frame h w n bg" "is_mask h w sm" "i < h" "j < w"
  shows "blend_channel fl c sm bg f ! i ! j =
     (f ! i ! j)[c := blend_value fl (f ! i ! j ! c) (sm ! i ! j) (bg ! i ! j ! c)]"
  using assms by (simp add: blend_channel_row [OF assms(1-4)] is_frame_def is_mask_def)

lemma blend_channel_is_frame:
  assumes "is_frame h w n f" "is_frame h w n bg" "is_mask h w sm"
  shows "is_frame h w n (blend_channel fl c sm bg f)"
  unfolding is_frame_def
proof (intro conjI allI impI)
  show "length (blend_channel fl c sm bg f) = h" by (rule blend_channel_length [OF assms])
next
  fix i assume "i < h"
  then show "length (blend_channel fl c sm bg f ! i) = w"
    using assms by (simp add: blend_channel_row [OF assms \<open>i < h\<close>] is_frame_def is_mask_def)
next
  fix i j assume "i < h" "j < w"
  then show "length (blend_channel fl c sm bg f ! i ! j) = n"
    using assms by (simp add: blend_channel_pixel [OF assms] is_frame_def)
qed

lemma blend_channels_fold:
  assumes bg: "is_frame h w n bg" and sm: "is_mask h w sm"
  shows "is_frame h w n f \<Longrightarrow> distinct cs \<Longrightarrow>
     is_frame h w n (foldl (\<lambda>f c. blend_channel fl c sm bg f) f cs)
     \<and> (\<forall>i<h. \<forall>j<w. \<forall>c<n.
          foldl (\<lambda>f c. blend_channel fl c sm bg f) f cs ! i ! j ! c =
            (if c \<in> set cs then blend_value fl (f ! i ! j ! c) (sm ! i ! j) (bg ! i ! j ! c)
             else f ! i ! j ! c))"
proof (induction cs rule: rev_induct)
  case Nil
  then show ?case by simp
next
  case (snoc k cs)
  let ?g = "foldl (\<lambda>f c. blend_channel fl c sm bg f) f cs"
  from snoc have g: "is_frame h w n ?g"
    and gv: "\<And>i j c. i < h \<Longrightarrow> j < w \<Longrightarrow> c < n \<Longrightarrow> ?g ! i ! j ! c =
            (if c \<in> set cs then blend_value fl (f ! i ! j ! c) (sm ! i ! j) (bg ! i ! j ! c)
             else f ! i ! j ! c)"
    and k: "k \<notin> set cs"
    by simp_all
  have fr: "is_frame h w n (blend_channel fl k sm bg ?g)"
    by (rule blend_channel_is_frame [OF g bg sm])
  have "blend_channel fl k sm bg ?g ! i ! j ! c =
            (if c \<in> set (cs @ [k]) then blend_value fl (f ! i ! j ! c) (sm ! i ! j) (bg ! i ! j ! c)
             else f ! i ! j ! c)" if "i < h" "j < w" "c < n" for i j c
  proof -
    have len: "length (?g ! i ! j) = n" using g that by (simp add: is_frame_def)
    show ?thesis
    proof (cases "c = k")
      case True
      then show ?thesis
        using that len k gv [OF that]
        by (simp add: blend_channel_pixel [OF g bg sm that(1,2)])
    next
      case False
      then show ?thesis
        using that len gv [OF that]
        by (simp add: blend_channel_pixel [OF g bg sm that(1,2)])
    qed
  qed
  with fr show ?case by simp
qed

lemma nchannels_is_frame: "is_frame h w n f \<Longrightarrow> 0 < h \<Longrightarrow> 0 < w \<Longrightarrow> nchannels f = n"
  by (auto simp: is_frame_def nchannels_def split: list.splits dest!: spec [of _ 0])

lemma replace_background_pointwise:
  assumes f: "is_frame h w n frame" and bg: "is_frame h w n bg" and m: "is_mask h w m"
  shows "is_frame h w n (replace_background fl fexp frame m bg)"
    and "i < h \<Longrightarrow> j < w \<Longrightarrow> c < n \<Longrightarrow>
      replace_background fl fexp frame m bg ! i ! j ! c =
        blend_value fl (frame ! i ! j ! c) (sigmoid_f32 fl fexp (m ! i ! j) 5 (- 10)) (bg ! i ! j ! c)"
proof -
  let ?sm = "sigmoid_mask fl fexp m"
  have sm: "is_mask h w ?sm" by (rule is_mask_sigmoid [OF m])
  note fold = blend_channels_fold [OF bg sm f, of "[0..<nchannels frame]"]
  show "is_frame h w n (replace_background fl fexp frame m bg)"
    using fold by (simp add: replace_background_def)
  assume that: "i < h" "j < w" "c < n"
  then have "nchannels frame = n"
    using nchannels_is_frame [OF f] by simp
  then show "replace_background fl fexp frame m bg ! i ! j ! c =
        blend_value fl (frame ! i ! j ! c) (sigmoid_f32 fl fexp (m ! i ! j) 5 (- 10)) (bg ! i ! j ! c)"
    using fold that sigmoid_mask_nth [OF m that(1,2)]
    by (simp add: replace_background_def)
qed

lemma is_frame_replicate: "is_frame h w n (replicate h (replicate w (replicate n v)))"
  by (simp add: is_frame_def)

lemma is_mask_replicate: "is_mask h w (replicate h (replicate w v))"
  by (simp add: is_mask_def)

lemma is_frame_eqI:
  assumes "is_frame h w n f" "is_frame h w n g"
    and "\<And>i j c. i < h \<Longrightarrow> j < w \<Longrightarrow> c < n \<Longrightarrow> f ! i ! j ! c = g ! i ! j ! c"
  shows "f = g"
proof (rule nth_equalityI)
  show "length f = length g" using assms by (simp add: is_frame_def)
  fix i assume "i < length f"
  then have i: "i < h" using assms by (simp add: is_frame_def)
  show "f ! i = g ! i"
  proof (rule nth_equalityI)
    show "length (f ! i) = length (g ! i)" using assms i by (simp add: is_frame_def)
    fix j assume "j < length (f ! i)"
    then have j: "j < w" using assms i by (simp add: is_frame_def)
    show "f ! i ! j = g ! i ! j"
    proof (rule nth_equalityI)
      show "length (f ! i ! j) = length (g ! i ! j)" using assms i j by (simp add: is_frame_def)
      fix c assume "c < length (f ! i ! j)"
      then have "c < n" using assms i j by (simp add: is_frame_def)
      then show "f ! i ! j ! c = g ! i ! j ! c" using assms(3) i j by simp
    qed
  qed
qed

lemma black_on_white:
  assumes fl: "rounds_nearly fl" and fexp: "exp_nearly fexp"
  shows "replace_background fl fexp (replicate h (replicate w (replicate n 0)))
       (replicate h (replicate w 0)) (replicate h (replicate w (replicate n 255)))
     = replicate h (replicate w (replicate n 253))"
proof (rule is_frame_eqI [of h w n])
  show "is_frame h w n (replace_background fl fexp (replicate h (replicate w (replicate n 0)))
       (replicate h (replicate w 0)) (replicate h (replicate w (replicate n 255))))"
    by (rule replace_background_pointwise(1) [OF is_frame_replicate is_frame_replicate is_mask_replicate])
  show "is_frame h w n (replicate h (replicate w (replicate n 253)))"
    by (rule is_frame_replicate)
  fix i j c assume "i < h" "j < w" "c < n"
  then show "replace_background fl fexp (replicate h (replicate w (replicate n 0)))
       (replicate h (replicate w 0)) (replicate h (replicate w (replicate n 255))) ! i ! j ! c
     = replicate h (replicate w (replicate n 253)) ! i ! j ! c"
    using white_value [OF fl fexp]
    by (simp add: replace_background_pointwise(2) [OF is_frame_replicate is_frame_replicate is_mask_replicate])
qed

text \<open>
  Claim C1. For a live frame, a background and a mask of one shape, background
  replacement keeps the shape and sets every channel of every pixel to
  \<open>live * sig + background * (1 - sig)\<close> with \<open>sig = 1 / (1 + exp (5 - 10 * m))\<close> at the
  mask value \<open>m\<close> of the pixel, evaluated as the code evaluates it: in \<^verbatim>\<open>float32\<close>,
  every operation rounded by \<open>fl\<close>, the exponential by \<open>fexp\<close>, and the sum stored as
  \<^verbatim>\<open>uint8\<close>. For a black live frame, a mask of zeros and a white background of any
  size, and for every rounding and exponential with a relative error of at most one
  part in ten thousand, every channel of the result is 253 of 255: white up to the
  weight \<open>sig\<close> at 0, which lies below \<open>2 / 255\<close>.
\<close>

theorem replace_background_blend:
  assumes "is_frame h w n frame" and "is_frame h w n bg" and "is_mask h w m"
    and "i < h" and "j < w" and "c < n"
  shows "is_frame h w n (replace_background fl fexp frame m bg)
    \<and> replace_background fl fexp frame m bg ! i ! j ! c =
        (let sig = fl (1 / fl (1 + fexp (fl (5 + fl (- 10 * (m ! i ! j))))))
         in to_uint8 (fl (fl (real (unat (frame ! i ! j ! c)) * sig)
                          + fl (real (unat (bg ! i ! j ! c)) * fl (1 - sig)))))
    \<and> (rounds_nearly fl \<and> exp_nearly fexp \<longrightarrow>
         replace_background fl fexp (replicate h (replicate w (replicate n 0)))
           (replicate h (replicate w 0)) (replicate h (replicate w (replicate n 255)))
         = replicate h (replicate w (replicate n 253)))"
  using replace_background_pointwise [OF assms(1-3), where fl = fl and fexp = fexp] assms(4-6)
    black_on_white [where fl = fl and fexp = fexp and h = h and w = w and n = n]
  by (simp add: blend_value_def sigmoid_f32_def Let_def)

theorem replace_background_blend_witness:
  "is_frame 2 2 3 (replicate 2 (replicate 2 (replicate 3 0)))
   \<and> is_frame 2 2 3 (replicate 2 (replicate 2 (replicate 3 255)))
   \<and> is_mask 2 2 (replicate 2 (replicate 2 0))
   \<and> (1::nat) < 2 \<and> (2::nat) < 3
   \<and> rounds_nearly f32 \<and> exp_nearly (\<lambda>x. f32 (exp x))
   \<and> replace_background f32 (\<lambda>x. f32 (exp x)) (replicate 2 (replicate 2 (replicate 3 0)))
        (replicate 2 (replicate 2 0)) (replicate 2 (replicate 2 (replicate 3 255)))
      = replicate 2 (replicate 2 (replicate 3 253))"
  using replace_background_blend [of 2 2 3 "replicate 2 (replicate 2 (replicate 3 0))"
      "replicate 2 (replicate 2 (replicate 3 255))" "replicate 2 (replicate 2 0)" 1 1 2
      f32 "\<lambda>x. f32 (exp x)"]
    f32_rounds_nearly f32_exp_nearly
  by (simp add: is_frame_def is_mask_def)

text \<open>With no rounding the stored value is the truncated value of the exact formula.\<close>

lemma replace_background_exact:
  assumes "is_frame h w n frame" and "is_frame h w n bg" and "is_mask h w m"
    and "i < h" and "j < w" and "c < n"
  shows "replace_background (\<lambda>x. x) exp frame m bg ! i ! j ! c =
        to_uint8 (real (unat (frame ! i ! j ! c)) * (1 / (1 + exp (5 - 10 * (m ! i ! j))))
                  + real (unat (bg ! i ! j ! c)) * (1 - 1 / (1 + exp (5 - 10 * (m ! i ! j)))))"
  using replace_background_pointwise(2) [OF assms]
  by (simp add: blend_value_def sigmoid_f32_def)

subsection \<open>Aspect-preserving resize\<close>

lemma crop_box_bounds:
  assumes "0 < width" "0 < height" "0 < imgwidth" "0 < imgheight"
    and "crop_box width height imgwidth imgheight = (ix0, iy0, nw, nh)"
  shows "0 \<le> nw \<and> nw \<le> imgwidth \<and> 0 \<le> nh \<and> nh \<le> imgheight
    \<and> 0 \<le> ix0 \<and> 0 \<le> iy0 \<and> ix0 + nw \<le> imgwidth \<and> iy0 + nh \<le> imgheight
    \<and> ix0 \<le> imgwidth - (ix0 + nw) \<and> imgwidth - (ix0 + nw) \<le> ix0 + 1
    \<and> iy0 \<le> imgheight - (iy0 + nh) \<and> imgheight - (iy0 + nh) \<le> iy0 + 1"
proof -
  define s where "s = max (real_of_int width / real_of_int imgwidth)
                      (real_of_int height / real_of_int imgheight)"
  have sw: "real_of_int width / real_of_int imgwidth \<le> s"
    and sh: "real_of_int height / real_of_int imgheight \<le> s" by (simp_all add: s_def)
  have spos: "0 < s" using assms(1,3) sw
    by (meson divide_pos_pos less_le_trans of_int_0_less_iff)
  have nw: "nw = \<lfloor>real_of_int width / s\<rfloor>" and nh: "nh = \<lfloor>real_of_int height / s\<rfloor>"
    and ix0: "ix0 = \<lfloor>0.5 * real_of_int imgwidth - 0.5 * real_of_int nw\<rfloor>"
    and iy0: "iy0 = \<lfloor>0.5 * real_of_int imgheight - 0.5 * real_of_int nh\<rfloor>"
    using assms(5) by (auto simp: crop_box_def Let_def s_def)
  have "real_of_int width \<le> s * real_of_int imgwidth"
    using sw assms(3) by (simp add: field_simps)
  then have w1: "real_of_int width / s \<le> real_of_int imgwidth"
    using spos by (simp add: field_simps)
  have "real_of_int height \<le> s * real_of_int imgheight"
    using sh assms(4) by (simp add: field_simps)
  then have h1: "real_of_int height / s \<le> real_of_int imgheight"
    using spos by (simp add: field_simps)
  have nw0: "0 \<le> nw" using spos assms(1) by (simp add: nw)
  have nh0: "0 \<le> nh" using spos assms(2) by (simp add: nh)
  have nw1: "nw \<le> imgwidth" unfolding nw using w1 by (simp add: floor_le_iff)
  have nh1: "nh \<le> imgheight" unfolding nh using h1 by (simp add: floor_le_iff)
  have ixd: "ix0 = (imgwidth - nw) div 2"
  proof -
    have "0.5 * real_of_int imgwidth - 0.5 * real_of_int nw = real_of_int (imgwidth - nw) / real_of_int 2"
      by simp
    then show ?thesis unfolding ix0 by (simp only: floor_divide_of_int_eq)
  qed
  have iyd: "iy0 = (imgheight - nh) div 2"
  proof -
    have "0.5 * real_of_int imgheight - 0.5 * real_of_int nh = real_of_int (imgheight - nh) / real_of_int 2"
      by simp
    then show ?thesis unfolding iy0 by (simp only: floor_divide_of_int_eq)
  qed
  show ?thesis using nw0 nh0 nw1 nh1 unfolding ixd iyd by simp presburger
qed

lemma img_dims: "is_image sy sx img \<Longrightarrow> 0 < sy \<Longrightarrow> img_height img = int sy \<and> img_width img = int sx"
  by (cases img) (auto simp: is_image_def img_height_def img_width_def)

text \<open>
  What \<^verbatim>\<open>resize_image\<close> hands to \<^verbatim>\<open>cv2.resize\<close> with \<^verbatim>\<open>keep_aspect\<close>: the rectangle of
  the source that starts at \<open>(iy0, ix0)\<close> and has the floored size, with margins on
  opposite sides that differ by at most one pixel.
\<close>

lemma py_slice_inside:
  assumes "0 \<le> a" "0 \<le> n" "a + n \<le> int (length xs)"
  shows "py_slice xs a (a + n) = take (nat n) (drop (nat a) xs)"
  using assms by (simp add: py_slice_def Let_def min_def)

lemma crop_inside:
  assumes img: "is_image sy sx img"
    and y: "0 \<le> y0" "0 \<le> nh" "y0 + nh \<le> int sy"
    and x: "0 \<le> x0" "0 \<le> nw" "x0 + nw \<le> int sx"
  shows "is_image (nat nh) (nat nw) (crop img y0 (y0 + nh) x0 (x0 + nw))"
    and "i < nat nh \<Longrightarrow> j < nat nw \<Longrightarrow>
           crop img y0 (y0 + nh) x0 (x0 + nw) ! i ! j = img ! (nat y0 + i) ! (nat x0 + j)"
proof -
  have len: "length img = sy" using img by (simp add: is_image_def)
  have row: "length (img ! k) = sx" if "k < sy" for k using img that by (simp add: is_image_def)
  have rows: "py_slice img y0 (y0 + nh) = take (nat nh) (drop (nat y0) img)"
    using y len by (simp add: py_slice_inside)
  have ri: "crop img y0 (y0 + nh) x0 (x0 + nw) ! i
        = take (nat nw) (drop (nat x0) (img ! (nat y0 + i)))" if "i < nat nh" for i
  proof -
    have "nat y0 + i < sy" using that y by linarith
    then show ?thesis
      using that y x len row [of "nat y0 + i"]
      by (simp add: crop_def rows py_slice_inside)
  qed
  have l: "length (crop img y0 (y0 + nh) x0 (x0 + nw)) = nat nh"
    using y len by (simp add: crop_def rows)
  have lr: "length (crop img y0 (y0 + nh) x0 (x0 + nw) ! i) = nat nw" if "i < nat nh" for i
  proof -
    have "nat y0 + i < sy" using that y by linarith
    then show ?thesis using x row [of "nat y0 + i"] by (simp add: ri [OF that])
  qed
  show "is_image (nat nh) (nat nw) (crop img y0 (y0 + nh) x0 (x0 + nw))"
    using l lr by (simp add: is_image_def)
  assume ij: "i < nat nh" "j < nat nw"
  have "nat y0 + i < sy" using ij y by linarith
  then show "crop img y0 (y0 + nh) x0 (x0 + nw) ! i ! j = img ! (nat y0 + i) ! (nat x0 + j)"
    using ij x row [of "nat y0 + i"] by (simp add: ri [OF ij(1)])
qed

lemma resize_image_keep_aspect_crop:
  assumes img: "is_image sy sx img" and pos: "0 < sy" "0 < sx" "0 < width" "0 < height"
    and box: "crop_box width height (int sx) (int sy) = (ix0, iy0, nw, nh)"
  shows "resize_image cv_resize width height img True
           = cv_resize (crop img iy0 (iy0 + nh) ix0 (ix0 + nw)) width height"
    and "is_image (nat nh) (nat nw) (crop img iy0 (iy0 + nh) ix0 (ix0 + nw))"
    and "i < nat nh \<Longrightarrow> j < nat nw \<Longrightarrow>
           crop img iy0 (iy0 + nh) ix0 (ix0 + nw) ! i ! j = img ! (nat iy0 + i) ! (nat ix0 + j)"
    and "ix0 \<le> int sx - (ix0 + nw) \<and> int sx - (ix0 + nw) \<le> ix0 + 1"
    and "iy0 \<le> int sy - (iy0 + nh) \<and> int sy - (iy0 + nh) \<le> iy0 + 1"
proof -
  have d: "img_height img = int sy" "img_width img = int sx"
    using img_dims [OF img pos(1)] by simp_all
  have b: "0 \<le> nw \<and> nw \<le> int sx \<and> 0 \<le> nh \<and> nh \<le> int sy
    \<and> 0 \<le> ix0 \<and> 0 \<le> iy0 \<and> ix0 + nw \<le> int sx \<and> iy0 + nh \<le> int sy
    \<and> ix0 \<le> int sx - (ix0 + nw) \<and> int sx - (ix0 + nw) \<le> ix0 + 1
    \<and> iy0 \<le> int sy - (iy0 + nh) \<and> int sy - (iy0 + nh) \<le> iy0 + 1"
    using crop_box_bounds [OF pos(3,4) _ _ box] pos(1,2) by simp
  show "resize_image cv_resize width height img True
           = cv_resize (crop img iy0 (iy0 + nh) ix0 (ix0 + nw)) width height"
    using pos by (simp add: resize_image_def d box)
  show "is_image (nat nh) (nat nw) (crop img iy0 (iy0 + nh) ix0 (ix0 + nw))"
    using crop_inside(1) [OF img, of iy0 nh ix0 nw] b by simp
  show "i < nat nh \<Longrightarrow> j < nat nw \<Longrightarrow>
           crop img iy0 (iy0 + nh) ix0 (ix0 + nw) ! i ! j = img ! (nat iy0 + i) ! (nat ix0 + j)"
    using crop_inside(2) [OF img, of iy0 nh ix0 nw i j] b by simp
  show "ix0 \<le> int sx - (ix0 + nw) \<and> int sx - (ix0 + nw) \<le> ix0 + 1"
    and "iy0 \<le> int sy - (iy0 + nh) \<and> int sy - (iy0 + nh) \<le> iy0 + 1"
    using b by simp_all
qed

text \<open>
  Claim C10. For a target and a source image of positive width and height, the region
  that \<^verbatim>\<open>resize_image\<close> cuts out with \<^verbatim>\<open>keep_aspect\<close> lies inside the source: both
  offsets are at least 0, offset plus size does not exceed the source in either
  direction, and neither size exceeds the source.
\<close>

theorem crop_region_within_image:
  assumes "0 < width" and "0 < height" and "0 < imgwidth" and "0 < imgheight"
  shows "case crop_box width height imgwidth imgheight of
           (ix0, iy0, newimgwidth, newimgheight) \<Rightarrow>
             0 \<le> ix0 \<and> 0 \<le> iy0
             \<and> ix0 + newimgwidth \<le> imgwidth \<and> iy0 + newimgheight \<le> imgheight
             \<and> newimgwidth \<le> imgwidth \<and> newimgheight \<le> imgheight"
proof -
  obtain ix0 iy0 nw nh where c: "crop_box width height imgwidth imgheight = (ix0, iy0, nw, nh)"
    by (rule prod_cases4)
  show ?thesis using crop_box_bounds [OF assms c] by (simp add: c)
qed

lemma crop_box_example: "crop_box 1280 720 1920 1200 = (0, 60, 1920, 1080)"
  by (simp add: crop_box_def Let_def)

theorem crop_region_within_image_witness:
  "(0::int) < 1280 \<and> (0::int) < 720 \<and> (0::int) < 1920 \<and> (0::int) < 1200
   \<and> crop_box 1280 720 1920 1200 = (0, 60, 1920, 1080)
   \<and> (0::int) + 1920 \<le> 1920 \<and> (60::int) + 1080 \<le> 1200"
  using crop_region_within_image [of 1280 720 1920 1200]
  by (simp add: crop_box_example)

lemma crop_box_1x1: "crop_box 1280 720 1 1 = (0, 0, 1, 0)"
  by (simp add: crop_box_def Let_def)

text \<open>
  Claim C8: with \<^verbatim>\<open>keep_aspect\<close> the result has the configured width and height. For a
  background image of one pixel and the default camera size 1280 by 720 the scale is
  1280, the region to cut out is one pixel wide and \<open>\<lfloor>720 / 1280\<rfloor> = 0\<close> pixels high, and
  \<^verbatim>\<open>cv2.resize\<close> is called on an image without rows, which it rejects.
\<close>

theorem resize_image_keep_aspect_empty_crop:
  "resize_image cv_resize 1280 720 [[p]] True = cv_resize [] 1280 720"
  by (simp add: resize_image_def img_height_def img_width_def crop_box_1x1 crop_def py_slice_def)

subsection \<open>Tiling\<close>

lemma length_concat_replicate: "length (concat (replicate k xs)) = k * length xs"
  by (induction k) simp_all

lemma nth_concat_replicate:
  "i < k * length xs \<Longrightarrow> concat (replicate k xs) ! i = xs ! (i mod length xs)"
proof (induction k arbitrary: i)
  case 0
  then show ?case by simp
next
  case (Suc k)
  show ?case
  proof (cases "i < length xs")
    case True
    then show ?thesis by (simp add: nth_append)
  next
    case False
    then have "i - length xs < k * length xs" using Suc.prems by simp
    then have "concat (replicate k xs) ! (i - length xs) = xs ! ((i - length xs) mod length xs)"
      by (rule Suc.IH)
    then show ?thesis using False by (simp add: nth_append le_mod_geq)
  qed
qed

lemma reps_cover:
  assumes "0 < (w::int)" "0 < s"
  shows "0 < (w - 1) div s + 1" and "w \<le> ((w - 1) div s + 1) * s"
proof -
  have "0 \<le> (w - 1) div s" using assms by (simp add: pos_imp_zdiv_nonneg_iff)
  then show "0 < (w - 1) div s + 1" by simp
  have "(w - 1) mod s < s" using assms by simp
  moreover have "w - 1 = s * ((w - 1) div s) + (w - 1) mod s" by simp
  ultimately have "w \<le> s * ((w - 1) div s) + s" by linarith
  then show "w \<le> ((w - 1) div s + 1) * s" by (simp add: algebra_simps)
qed

lemma py_slice_take: "0 \<le> b \<Longrightarrow> py_slice xs 0 b = take (nat b) xs"
  by (simp add: py_slice_def Let_def min_def)

lemma tile_length: "length (tile img repy repx) = repy * length img"
  by (simp add: tile_def length_concat_replicate)

lemma tile_row:
  assumes "i < repy * length img"
  shows "tile img repy repx ! i = concat (replicate repx (img ! (i mod length img)))"
proof -
  have "0 < length img" using assms by (cases "length img") simp_all
  then have "i mod length img < length img" by simp
  then show ?thesis using assms by (simp add: tile_def nth_concat_replicate)
qed

lemma tiled_crop:
  assumes img: "is_image sy sx img" and pos: "0 < sy" "0 < sx" "0 < width" "0 < height"
  defines "out \<equiv> crop (tile img (nat ((height - 1) div int sy + 1)) (nat ((width - 1) div int sx + 1)))
                     0 height 0 width"
  shows "length out = nat height"
    and "i < nat height \<Longrightarrow> length (out ! i) = nat width"
    and "i < nat height \<Longrightarrow> j < nat width \<Longrightarrow> out ! i ! j = img ! (i mod sy) ! (j mod sx)"
proof -
  let ?ry = "nat ((height - 1) div int sy + 1)" and ?rx = "nat ((width - 1) div int sx + 1)"
  have ry: "nat height \<le> ?ry * sy"
  proof -
    have "height \<le> ((height - 1) div int sy + 1) * int sy" "0 < (height - 1) div int sy + 1"
      using reps_cover [of height "int sy"] pos by simp_all
    then have "height \<le> int (?ry * sy)" by simp
    then show ?thesis by linarith
  qed
  have rx: "nat width \<le> ?rx * sx"
  proof -
    have "width \<le> ((width - 1) div int sx + 1) * int sx" "0 < (width - 1) div int sx + 1"
      using reps_cover [of width "int sx"] pos by simp_all
    then have "width \<le> int (?rx * sx)" by simp
    then show ?thesis by linarith
  qed
  have len: "length img = sy" using img by (simp add: is_image_def)
  have row: "length (img ! k) = sx" if "k < sy" for k using img that by (simp add: is_image_def)
  have out: "out = map (\<lambda>row. take (nat width) row) (take (nat height) (tile img ?ry ?rx))"
    using pos by (simp add: out_def crop_def py_slice_take)
  show "length out = nat height"
    using ry by (simp add: out tile_length len)
  assume i: "i < nat height"
  then have i': "i < ?ry * length img" using ry len by simp
  have m: "i mod sy < sy" using pos by simp
  have oi: "out ! i = take (nat width) (concat (replicate ?rx (img ! (i mod sy))))"
    using i i' ry by (simp add: out tile_length tile_row len)
  show "length (out ! i) = nat width"
    using rx by (simp add: oi length_concat_replicate row [OF m])
  assume j: "j < nat width"
  then have "j < ?rx * length (img ! (i mod sy))" using rx row [OF m] by simp
  then show "out ! i ! j = img ! (i mod sy) ! (j mod sx)"
    using j by (simp add: oi nth_concat_replicate row [OF m])
qed

text \<open>
  Claim C7. With tiling on, a source image of \<open>sy\<close> rows and \<open>sx\<close> columns and a target
  of positive width and height: when the source is strictly larger than the target in
  both directions the background is what \<^verbatim>\<open>cv2.resize\<close> makes of it at the target size;
  otherwise the background has exactly \<open>height\<close> rows of \<open>width\<close> pixels, and the pixel
  in row \<open>i\<close> and column \<open>j\<close>, up to the last row and column, is the pixel
  \<open>(i mod sy, j mod sx)\<close> of the source.
\<close>

theorem tiled_background_covers_target:
  assumes "is_image sy sx img" and "0 < sy" and "0 < sx" and "0 < width" and "0 < height"
  shows "if int sx > width \<and> int sy > height
         then load_static_background cv_resize True keep_aspect width height img
                = cv_resize img width height
         else (\<exists>out. load_static_background cv_resize True keep_aspect width height img = Inr out
                 \<and> length out = nat height
                 \<and> (\<forall>i<nat height. length (out ! i) = nat width
                      \<and> (\<forall>j<nat width. out ! i ! j = img ! (i mod sy) ! (j mod sx))))"
proof -
  have d: "img_height img = int sy" "img_width img = int sx"
    using img_dims [OF assms(1,2)] by simp_all
  have r: "\<not> ((width - 1) div int sx + 1 < 0 \<or> (height - 1) div int sy + 1 < 0)"
    using reps_cover(1) [of width "int sx"] reps_cover(1) [of height "int sy"] assms by simp
  show ?thesis
    using tiled_crop [OF assms] assms(2,3) r
    by (simp add: load_static_background_def d Let_def)
qed

lemma tile_example:
  "load_static_background (\<lambda>img w h. Inl RuntimeError) True False 3 3 [[1, 2], [3, 4::nat]]
     = Inr [[1, 2, 1], [3, 4, 3], [1, 2, 1]]"
  by (simp add: load_static_background_def img_height_def img_width_def tile_def crop_def
      py_slice_def Let_def eval_nat_numeral)

theorem tiled_background_covers_target_witness:
  "is_image 2 2 [[1, 2], [3, 4::nat]] \<and> (0::nat) < 2 \<and> (0::int) < 3
   \<and> load_static_background (\<lambda>img w h. Inl RuntimeError) True False 3 3 [[1, 2], [3, 4::nat]]
     = Inr [[1, 2, 1], [3, 4, 3], [1, 2, 1]]"
proof -
  have img: "is_image 2 2 [[1, 2], [3, 4::nat]]"
    by (auto simp: is_image_def dest!: less_2_cases)
  note t = tiled_background_covers_target [OF img, of 3 3 "\<lambda>img w h. Inl RuntimeError" False]
  show ?thesis using img t tile_example by simp
qed

subsection \<open>Video playback\<close>

lemma read_frame_video:
  assumes "frames v \<noteq> []" "pos v \<le> length (frames v)"
  shows "read_frame video_read video_rewind (\<lambda>f. Inr (g f)) v =
     (Inr (g (frames v ! (pos v mod length (frames v)))),
      v\<lparr>pos := pos v mod length (frames v) + 1\<rparr>)"
proof (cases "pos v < length (frames v)")
  case True
  then show ?thesis by (simp add: read_frame_def video_read_def)
next
  case False
  with assms have "pos v = length (frames v)" "0 < length (frames v)" by simp_all
  then show ?thesis by (simp add: read_frame_def video_read_def video_rewind_def)
qed

lemma read_frames_video:
  assumes "frames v \<noteq> []" "pos v \<le> length (frames v)"
  shows "read_frames (read_frame video_read video_rewind (\<lambda>f. Inr (g f))) (Suc k) (v, fr) =
     Inr (v\<lparr>pos := (pos v + k) mod length (frames v) + 1\<rparr>,
          Some (g (frames v ! ((pos v + k) mod length (frames v)))))"
  using assms
proof (induction k arbitrary: v fr)
  case 0
  then show ?case by (simp add: read_frame_video)
next
  case (Suc k)
  let ?n = "length (frames v)"
  let ?v1 = "v\<lparr>pos := pos v mod ?n + 1\<rparr>"
  have n: "0 < ?n" using Suc.prems by simp
  then have "pos v mod ?n < ?n" by simp
  then have "pos v mod ?n + 1 \<le> ?n" by linarith
  then have v1: "frames ?v1 \<noteq> []" "pos ?v1 \<le> length (frames ?v1)"
    using Suc.prems by simp_all
  have "(pos v mod ?n + 1 + k) mod ?n = (pos v + Suc k) mod ?n"
    by (metis Suc_eq_plus1 add.assoc add.commute mod_add_left_eq)
  then show ?case
    using Suc.IH [OF v1, of "Some (g (frames v ! (pos v mod ?n)))"]
    by (simp add: read_frame_video [OF Suc.prems])
qed

lemma py_round_ge_one: "1 \<le> x \<Longrightarrow> 1 \<le> py_round x"
proof -
  assume "1 \<le> x"
  then have "1 \<le> \<lfloor>x\<rfloor>" by simp
  then show ?thesis by (simp add: py_round_def Let_def)
qed

text \<open>
  Claim C4. On a video of at least one frame and with a measured rate other than 0, let
  \<open>advrate = bg_video_fps / current_fps\<close> and let \<open>k\<close> be \<^verbatim>\<open>round(advrate)\<close> when
  \<open>advrate \<ge> 1\<close>, and otherwise 1 when the random draw \<open>u\<close> is below \<open>advrate\<close> and 0
  when it is not. Then \<open>k\<close> is the advance the call computes; for \<open>k = 0\<close> the call
  reads nothing and yields the frame it holds, and for \<open>k > 0\<close> it moves \<open>k\<close> frames
  on in the looping video and yields the last of them. (\<^verbatim>\<open>round\<close> is Python's: half-way
  values go to the even neighbour.)
\<close>

theorem next_frame_advance:
  assumes "current_fps \<noteq> 0" and "frames v \<noteq> []" and "pos v \<le> length (frames v)"
  shows "let advrate = bg_video_fps / current_fps;
             k = (if advrate < 1 then (if u < advrate then 1 else 0) else py_round advrate);
             idx = (pos v + nat k - 1) mod length (frames v)
         in bg_video_adv_rate bg_video_fps current_fps u = Inr k
          \<and> next_frame (read_frame video_read video_rewind (\<lambda>f. Inr (g f)))
               bg_video_fps current_fps u (v, frame) =
              (if k = 0 then (case frame of None \<Rightarrow> Inl UnboundLocalError
                                | Some f \<Rightarrow> Inr (f, (v, frame)))
               else Inr (g (frames v ! idx),
                         (v\<lparr>pos := idx + 1\<rparr>, Some (g (frames v ! idx)))))"
proof -
  define k where "k = (if bg_video_fps / current_fps < 1
      then (if u < bg_video_fps / current_fps then 1 else 0)
      else py_round (bg_video_fps / current_fps))"
  have adv: "bg_video_adv_rate bg_video_fps current_fps u = Inr k"
    using assms(1) by (simp add: bg_video_adv_rate_def k_def Let_def)
  have k0: "0 \<le> k"
  proof (cases "bg_video_fps / current_fps < 1")
    case True
    then show ?thesis by (simp add: k_def)
  next
    case False
    then have "1 \<le> py_round (bg_video_fps / current_fps)"
      by (intro py_round_ge_one) simp
    with False show ?thesis by (simp add: k_def)
  qed
  have nf: "next_frame (read_frame video_read video_rewind (\<lambda>f. Inr (g f)))
               bg_video_fps current_fps u (v, frame) =
              (if k = 0 then (case frame of None \<Rightarrow> Inl UnboundLocalError
                                | Some f \<Rightarrow> Inr (f, (v, frame)))
               else Inr (g (frames v ! ((pos v + nat k - 1) mod length (frames v))),
                         (v\<lparr>pos := (pos v + nat k - 1) mod length (frames v) + 1\<rparr>,
                          Some (g (frames v ! ((pos v + nat k - 1) mod length (frames v)))))))"
  proof (cases "k = 0")
    case True
    then show ?thesis by (simp add: next_frame_def adv split: option.splits)
  next
    case False
    with k0 obtain k' where k': "nat k = Suc k'" by (cases "nat k") simp_all
    show ?thesis using False
      by (simp add: next_frame_def adv k' read_frames_video [OF assms(2,3)]
          del: read_frames.simps)
  qed
  show ?thesis using adv nf unfolding Let_def k_def by simp
qed

lemma py_round_3: "py_round 3 = 3"
  by (simp add: py_round_def Let_def)

theorem next_frame_advance_witness:
  "(10::real) \<noteq> 0 \<and> frames \<lparr>frames = [10, 20, 30, 40, 50::nat], pos = 1\<rparr> \<noteq> []
   \<and> pos \<lparr>frames = [10, 20, 30, 40, 50::nat], pos = 1\<rparr>
        \<le> length (frames \<lparr>frames = [10, 20, 30, 40, 50::nat], pos = 1\<rparr>)
   \<and> bg_video_adv_rate 30 10 0 = Inr 3
   \<and> next_frame (read_frame video_read video_rewind (\<lambda>f. Inr f)) 30 10 0
        (\<lparr>frames = [10, 20, 30, 40, 50::nat], pos = 1\<rparr>, Some 10)
      = Inr (40, (\<lparr>frames = [10, 20, 30, 40, 50], pos = 4\<rparr>, Some 40))"
  using next_frame_advance [of 10 "\<lparr>frames = [10, 20, 30, 40, 50::nat], pos = 1\<rparr>" 30 0 "\<lambda>f. f" "Some 10"]
  by (simp add: py_round_3 Let_def)

text \<open>
  Claim C9. When the read of a background frame fails, \<^verbatim>\<open>read_frame\<close> rewinds and reads
  once more; a second failure is the fatal \<^verbatim>\<open>AssertionError\<close>, and otherwise the frame
  read after the rewind is returned, through \<^verbatim>\<open>resize_image\<close> like every frame. On a
  video at its end this is the first frame of the video, and the frame after it is
  read next; a video without frames fails.
\<close>

theorem read_frame_rewinds:
  "(vread v = (None, v1) \<longrightarrow>
      read_frame vread vrewind resize v =
        (case vread (vrewind v1) of
           (None, v2) \<Rightarrow> (Inl AssertionError, v2)
         | (Some frame, v2) \<Rightarrow> (resize frame, v2)))
   \<and> (length (frames w) \<le> pos w \<longrightarrow>
        read_frame video_read video_rewind resize w =
          (if frames w = [] then (Inl AssertionError, w\<lparr>pos := 0\<rparr>)
           else (resize (frames w ! 0), w\<lparr>pos := 1\<rparr>)))"
  by (auto simp: read_frame_def video_read_def video_rewind_def split: option.splits prod.splits)

theorem read_frame_rewinds_witness:
  "video_read \<lparr>frames = [10, 20, 30::nat], pos = 3\<rparr> = (None, \<lparr>frames = [10, 20, 30::nat], pos = 3\<rparr>)
   \<and> length (frames \<lparr>frames = [10, 20, 30::nat], pos = 3\<rparr>) \<le> pos \<lparr>frames = [10, 20, 30::nat], pos = 3\<rparr>
   \<and> read_frame video_read video_rewind Inr \<lparr>frames = [10, 20, 30::nat], pos = 3\<rparr>
       = (Inr 10, \<lparr>frames = [10, 20, 30], pos = 1\<rparr>)"
  using read_frame_rewinds [of video_read "\<lparr>frames = [10, 20, 30::nat], pos = 3\<rparr>"
      "\<lparr>frames = [10, 20, 30::nat], pos = 3\<rparr>" video_rewind Inr "\<lparr>frames = [10, 20, 30::nat], pos = 3\<rparr>"]
  by (simp add: video_read_def video_rewind_def)

end
